theory Spec2Isabelle
  imports Main "HOL-Library.Sublist"
begin

section \<open>The store\<close>

text \<open>
  Both scripts talk to one SQLite file through Python's \<open>sqlite3\<close> module. The store is
  not part of the repository, so its statements are modelled here by what the scripts
  rely on: a catalogue of tables in the order \<open>sqlite_master\<close> reports them, each table
  with its column descriptors (the tuples of \<open>PRAGMA table_info\<close>) and its rows.
  A table is identified by its name and a column by its name within the table, compared
  as Python compares strings.
\<close>

datatype sql_value = Null | Integer int | Text string

text \<open>
  One tuple \<open>(cid, name, type, notnull, dflt_value, pk)\<close> of \<open>PRAGMA table_info\<close>.
  The position \<open>cid\<close> is the position in the column list.
\<close>

record column =
  col_name :: string
  col_type :: string
  col_notnull :: bool
  col_dflt :: "sql_value option"
  col_pk :: nat

text \<open>
  Modelled from the spec: the store may refuse a column addition (section 7,
  \<open>SchemaChangeRejected\<close>). Whether it does is a property of the table in the store
  (in SQLite for instance a virtual table, which is listed with type \<open>table\<close> and may
  not be altered); the flag \<open>tbl_rejects_add\<close> records it.
\<close>

record table =
  tbl_name :: string
  tbl_cols :: "column list"
  tbl_rows :: "sql_value list list"
  tbl_rejects_add :: bool

type_synonym store = "table list"

text \<open>
  The errors of the store. All three reach Python as \<open>sqlite3.OperationalError\<close>:
  a refused schema change, a name that resolves to no table, and a statement that the
  store does not accept as written.
\<close>

datatype error = SchemaChangeRejected | NotFoundError | SyntaxError

definition find_table :: "store \<Rightarrow> string \<Rightarrow> table option" where
  "find_table s t = find (\<lambda>T. tbl_name T = t) s"

definition has_column :: "table \<Rightarrow> string \<Rightarrow> bool" where
  "has_column T n = (n \<in> set (map col_name (tbl_cols T)))"

text \<open>\<open>SELECT name FROM sqlite_master WHERE type='table'\<close>\<close>

definition select_table_names :: "store \<Rightarrow> string list" where
  "select_table_names s = map tbl_name s"

text \<open>\<open>PRAGMA table_info(t)\<close>: the column tuples; no tuple for a table that does not exist.\<close>

definition table_info :: "store \<Rightarrow> string \<Rightarrow> column list" where
  "table_info s t = (case find_table s t of None \<Rightarrow> [] | Some T \<Rightarrow> tbl_cols T)"

text \<open>
  \<open>ALTER TABLE t ADD COLUMN c\<close>: the column goes to the end of the column list and every
  row of the table reads the default of the new column there (\<open>NULL\<close> without a default).
\<close>

definition default_value :: "column \<Rightarrow> sql_value" where
  "default_value c = (case col_dflt c of None \<Rightarrow> Null | Some v \<Rightarrow> v)"

definition add_column :: "column \<Rightarrow> table \<Rightarrow> table" where
  "add_column c T =
     T\<lparr>tbl_cols := tbl_cols T @ [c],
       tbl_rows := map (\<lambda>r. r @ [default_value c]) (tbl_rows T)\<rparr>"

definition alter_add_column :: "store \<Rightarrow> string \<Rightarrow> column \<Rightarrow> error + store" where
  "alter_add_column s t c =
     (case find_table s t of
        None \<Rightarrow> Inl NotFoundError
      | Some T \<Rightarrow>
          if tbl_rejects_add T \<or> has_column T (col_name c) then Inl SchemaChangeRejected
          else Inr (map (\<lambda>U. if tbl_name U = t then add_column c U else U) s))"

text \<open>
  A view is a catalogue entry of type \<open>view\<close>: the table list of both scripts leaves it
  out, but a name in a statement can resolve to it. For the listing script only its name,
  its columns and what counting its rows yields matter (the count of a view can fail,
  for instance when the view reads a table that no longer exists).
\<close>

record view =
  view_name :: string
  view_cols :: "column list"
  view_count :: "error + nat"

text \<open>
  When the store itself resolves a name written in a statement, it compares names without
  regard to the case of the ASCII letters, and looks among tables and views.
\<close>

definition ascii_lower :: "char \<Rightarrow> char" where
  "ascii_lower c =
     (case map_of (zip ''ABCDEFGHIJKLMNOPQRSTUVWXYZ'' ''abcdefghijklmnopqrstuvwxyz'') c of
        None \<Rightarrow> c
      | Some l \<Rightarrow> l)"

definition same_name :: "string \<Rightarrow> string \<Rightarrow> bool" where
  "same_name a b = (map ascii_lower a = map ascii_lower b)"

definition resolve :: "store \<Rightarrow> view list \<Rightarrow> string \<Rightarrow> (table + view) option" where
  "resolve s vs n =
     (case find (\<lambda>T. same_name (tbl_name T) n) s of
        Some T \<Rightarrow> Some (Inl T)
      | None \<Rightarrow> map_option Inr (find (\<lambda>v. same_name (view_name v) n) vs))"

text \<open>\<open>SELECT COUNT(*) FROM n\<close>\<close>

definition count_rows :: "store \<Rightarrow> view list \<Rightarrow> string \<Rightarrow> error + nat" where
  "count_rows s vs n =
     (case resolve s vs n of
        None \<Rightarrow> Inl NotFoundError
      | Some (Inl T) \<Rightarrow> Inr (length (tbl_rows T))
      | Some (Inr v) \<Rightarrow> view_count v)"

text \<open>The columns \<open>PRAGMA table_info\<close> lists for a name the store resolves itself.\<close>

definition resolved_info :: "store \<Rightarrow> view list \<Rightarrow> string \<Rightarrow> column list" where
  "resolved_info s vs n =
     (case resolve s vs n of
        None \<Rightarrow> []
      | Some (Inl T) \<Rightarrow> tbl_cols T
      | Some (Inr v) \<Rightarrow> view_cols v)"

text \<open>The value a row holds in the column of a given name.\<close>

definition read_column :: "table \<Rightarrow> sql_value list \<Rightarrow> string \<Rightarrow> sql_value option" where
  "read_column T r n = map_of (zip (map col_name (tbl_cols T)) r) n"

section \<open>The process: connection, calls and output\<close>

text \<open>
  A run is a function of the database file. Its state holds the committed content of the
  file, the content seen through the connection (which includes changes not yet
  committed), whether the connection is open, the calls made on the \<open>sqlite3\<close> interface
  and the lines printed. A change counts as durable only once \<open>commit\<close> has run.
\<close>

datatype call =
    Connect
  | Select_tables
  | Table_info string
  | Alter_add string column
  | Commit
  | Select_count string
  | Close

text \<open>
  The printed lines, one constructor for each \<open>print\<close> of the two scripts:
  \<open>Tables: [...]\<close>, \<open>Adding project_id to t...\<close>, \<open>Done!\<close>, \<open>t: project_id exists\<close>,
  \<open>t: table does not exist (will be created on first run)\<close>,
  \<open>All migrations complete!\<close>, the table header \<open>t:\<close> and the column line
  \<open>name: type (nullable=..., default=...)\<close> of the schema listing, and \<open>Total memories: n\<close>.
\<close>

datatype line =
    Tables_line "string list"
  | Adding_line string
  | Done_line
  | Exists_line string
  | Absent_line string
  | Complete_line
  | Table_header string
  | Column_line string string bool "sql_value option"
  | Total_line nat

record world =
  db_file :: store
  db_view :: store
  conn_open :: bool
  calls :: "call list"
  stdout :: "line list"

definition print_line :: "line \<Rightarrow> world \<Rightarrow> world" where
  "print_line l w = w\<lparr>stdout := stdout w @ [l]\<rparr>"

definition called :: "call \<Rightarrow> world \<Rightarrow> world" where
  "called c w = w\<lparr>calls := calls w @ [c]\<rparr>"

definition sqlite3_connect :: "store \<Rightarrow> world" where
  "sqlite3_connect s =
     \<lparr>db_file = s, db_view = s, conn_open = True, calls = [Connect], stdout = []\<rparr>"

definition execute_select_tables :: "world \<Rightarrow> string list \<times> world" where
  "execute_select_tables w = (select_table_names (db_view w), called Select_tables w)"

definition execute_table_info :: "string \<Rightarrow> world \<Rightarrow> column list \<times> world" where
  "execute_table_info t w = (table_info (db_view w) t, called (Table_info t) w)"

definition execute_alter_add :: "string \<Rightarrow> column \<Rightarrow> world \<Rightarrow> error option \<times> world" where
  "execute_alter_add t c w =
     (case alter_add_column (db_view w) t c of
        Inl e \<Rightarrow> (Some e, called (Alter_add t c) w)
      | Inr s \<Rightarrow> (None, called (Alter_add t c) (w\<lparr>db_view := s\<rparr>)))"

definition execute_select_count ::
  "view list \<Rightarrow> string \<Rightarrow> world \<Rightarrow> (error + nat) \<times> world" where
  "execute_select_count vs n w = (count_rows (db_view w) vs n, called (Select_count n) w)"

text \<open>
  \<open>PRAGMA table_info(...)\<close> with a catalogue name pasted into the statement text as it is,
  without quotes. Whether the store accepts the resulting text depends on the name (a name
  with a space or a keyword is a syntax error); \<open>fails\<close> gives the error of the store for
  the names it does not accept. The fixed names of \<open>migrate_db.py\<close> are plain identifiers,
  which is why \<open>execute_table_info\<close> has no such case.
\<close>

definition execute_table_info_pasted ::
  "(string \<Rightarrow> error option) \<Rightarrow> view list \<Rightarrow> string \<Rightarrow> world \<Rightarrow>
   (error + column list) \<times> world" where
  "execute_table_info_pasted fails vs n w =
     (case fails n of
        Some e \<Rightarrow> (Inl e, called (Table_info n) w)
      | None \<Rightarrow> (Inr (resolved_info (db_view w) vs n), called (Table_info n) w))"

definition commit :: "world \<Rightarrow> world" where
  "commit w = called Commit (w\<lparr>db_file := db_view w\<rparr>)"

text \<open>Closing the connection drops what was not committed.\<close>

definition close :: "world \<Rightarrow> world" where
  "close w = called Close (w\<lparr>db_view := db_file w, conn_open := False\<rparr>)"

section \<open>migrate_db.py\<close>

definition tables_needing_project_id :: "string list" where
  "tables_needing_project_id =
     [''memories'', ''entities'', ''edges'', ''scratchpad'', ''entity_relations'']"

text \<open>The column of \<open>ADD COLUMN project_id TEXT DEFAULT 'global'\<close>.\<close>

definition project_id_column :: column where
  "project_id_column =
     \<lparr>col_name = ''project_id'', col_type = ''TEXT'', col_notnull = False,
      col_dflt = Some (Text ''global''), col_pk = 0\<rparr>"

text \<open>
  The body of the loop for one table. An exception of \<open>execute\<close> is not caught anywhere
  in the script: it ends the run at once, which is the \<open>Some\<close> result.
\<close>

definition migrate_table :: "string list \<Rightarrow> string \<Rightarrow> world \<Rightarrow> error option \<times> world" where
  "migrate_table tables t w =
     (if t \<in> set tables then
        (case execute_table_info t w of (info, w1) \<Rightarrow>
           let cols = map col_name info in
           if ''project_id'' \<notin> set cols then
             (case execute_alter_add t project_id_column (print_line (Adding_line t) w1) of
                (Some e, w2) \<Rightarrow> (Some e, w2)
              | (None, w2) \<Rightarrow> (None, print_line Done_line (commit w2)))
           else (None, print_line (Exists_line t) w1))
      else (None, print_line (Absent_line t) w))"

fun migrate_loop :: "string list \<Rightarrow> string list \<Rightarrow> world \<Rightarrow> error option \<times> world" where
  "migrate_loop tables [] w = (None, w)"
| "migrate_loop tables (t # ts) w =
     (case migrate_table tables t w of
        (Some e, w1) \<Rightarrow> (Some e, w1)
      | (None, w1) \<Rightarrow> migrate_loop tables ts w1)"

definition migrate :: "store \<Rightarrow> error option \<times> world" where
  "migrate s =
     (case execute_select_tables (sqlite3_connect s) of (tables, w1) \<Rightarrow>
        (case migrate_loop tables tables_needing_project_id (print_line (Tables_line tables) w1) of
           (Some e, w2) \<Rightarrow> (Some e, w2)
         | (None, w2) \<Rightarrow> (None, print_line Complete_line (close w2))))"

text \<open>The script run again on the file the first run left.\<close>

definition second_run :: "store \<Rightarrow> error option \<times> world" where
  "second_run s = migrate (db_file (snd (migrate s)))"

section \<open>check_schema.py\<close>

fun print_columns :: "column list \<Rightarrow> world \<Rightarrow> world" where
  "print_columns [] w = w"
| "print_columns (col # cols) w =
     print_columns cols
       (print_line (Column_line (col_name col) (col_type col) (\<not> col_notnull col) (col_dflt col)) w)"

text \<open>
  The loop over the table list. An exception of \<open>execute\<close> ends the run before the header
  of that table is printed.
\<close>

fun describe_tables ::
  "(string \<Rightarrow> error option) \<Rightarrow> view list \<Rightarrow> string list \<Rightarrow> world \<Rightarrow>
   error option \<times> world" where
  "describe_tables fails vs [] w = (None, w)"
| "describe_tables fails vs (t # ts) w =
     (case execute_table_info_pasted fails vs t w of
        (Inl e, w1) \<Rightarrow> (Some e, w1)
      | (Inr columns, w1) \<Rightarrow>
          describe_tables fails vs ts (print_columns columns (print_line (Table_header t) w1)))"

text \<open>
  The script, run on a file with the tables \<open>s\<close> and the views \<open>vs\<close>, for a store that
  refuses the pasted names as \<open>fails\<close> says.
\<close>

definition check_schema ::
  "(string \<Rightarrow> error option) \<Rightarrow> view list \<Rightarrow> store \<Rightarrow> error option \<times> world" where
  "check_schema fails vs s =
     (case execute_select_tables (sqlite3_connect s) of (tables, w1) \<Rightarrow>
        (case describe_tables fails vs tables (print_line (Tables_line tables) w1) of
           (Some e, w2) \<Rightarrow> (Some e, w2)
         | (None, w2) \<Rightarrow>
             (case execute_select_count vs ''memories'' w2 of
                (Inl e, w3) \<Rightarrow> (Some e, w3)
              | (Inr n, w3) \<Rightarrow> (None, close (print_line (Total_line n) w3)))))"

section \<open>The outcomes of the specification\<close>

text \<open>
  The three outcomes of section 4.2, decided from the store as the specification words
  them: the table does not exist; it exists and has the column; it exists and lacks it.
\<close>

datatype outcome = Table_absent | Already_present | Added

definition spec_outcome :: "store \<Rightarrow> string \<Rightarrow> outcome" where
  "spec_outcome s t =
     (case find_table s t of
        None \<Rightarrow> Table_absent
      | Some T \<Rightarrow> if has_column T ''project_id'' then Already_present else Added)"

text \<open>The lines that report an outcome, and the calls a requirement with that outcome makes.\<close>

fun outcome_lines :: "string \<Rightarrow> outcome \<Rightarrow> line list" where
  "outcome_lines t Table_absent = [Absent_line t]"
| "outcome_lines t Already_present = [Exists_line t]"
| "outcome_lines t Added = [Adding_line t, Done_line]"

fun outcome_calls :: "string \<Rightarrow> outcome \<Rightarrow> call list" where
  "outcome_calls t Table_absent = []"
| "outcome_calls t Already_present = [Table_info t]"
| "outcome_calls t Added = [Table_info t, Alter_add t project_id_column, Commit]"

text \<open>A requirement whose column addition the store refuses.\<close>

definition rejected :: "store \<Rightarrow> string \<Rightarrow> bool" where
  "rejected s t =
     (case find_table s t of
        None \<Rightarrow> False
      | Some T \<Rightarrow> \<not> has_column T ''project_id'' \<and> tbl_rejects_add T)"

text \<open>The store after the requirements \<open>ts\<close> have been applied to \<open>s\<close>.\<close>

definition upgraded :: "string list \<Rightarrow> store \<Rightarrow> store" where
  "upgraded ts s =
     map (\<lambda>T. if tbl_name T \<in> set ts \<and> spec_outcome s (tbl_name T) = Added
              then add_column project_id_column T else T) s"

text \<open>
  The run stops at the first requirement the store refuses: \<open>processed\<close> are the
  requirements before it (all of them when none is refused), \<open>refused\<close> starts with it.
\<close>

definition processed :: "store \<Rightarrow> string list \<Rightarrow> string list" where
  "processed s ts = takeWhile (\<lambda>t. \<not> rejected s t) ts"

definition refused :: "store \<Rightarrow> string list \<Rightarrow> string list" where
  "refused s ts = dropWhile (\<lambda>t. \<not> rejected s t) ts"

definition reported :: "store \<Rightarrow> string list \<Rightarrow> line list" where
  "reported s ts = concat (map (\<lambda>t. outcome_lines t (spec_outcome s t)) ts)"

definition issued :: "store \<Rightarrow> string list \<Rightarrow> call list" where
  "issued s ts = concat (map (\<lambda>t. outcome_calls t (spec_outcome s t)) ts)"

text \<open>The loop over \<open>ts\<close> started in state \<open>w\<close>, in closed form.\<close>

definition run_result :: "world \<Rightarrow> string list \<Rightarrow> error option \<times> world" where
  "run_result w ts =
     (let s = db_view w; pre = processed s ts;
          w1 = w\<lparr>db_file := upgraded pre s, db_view := upgraded pre s,
                 calls := calls w @ issued s pre, stdout := stdout w @ reported s pre\<rparr>
      in case refused s ts of
           [] \<Rightarrow> (None, w1)
         | t # _ \<Rightarrow> (Some SchemaChangeRejected,
                     w1\<lparr>calls := calls w1 @ [Table_info t, Alter_add t project_id_column],
                        stdout := stdout w1 @ [Adding_line t]\<rparr>))"

text \<open>
  The schema state of a store: the tables in catalogue order, each with its column
  descriptors and with whether the store accepts additions to it. The rows are data.
\<close>

definition schema_of :: "store \<Rightarrow> (string \<times> column list \<times> bool) list" where
  "schema_of s = map (\<lambda>T. (tbl_name T, tbl_cols T, tbl_rejects_add T)) s"

text \<open>
  \<open>T'\<close> keeps \<open>T\<close>: the same name, every column of \<open>T\<close> in place and unchanged, as many
  rows, and in every row the values of the columns of \<open>T\<close> unchanged.
\<close>

definition table_kept :: "table \<Rightarrow> table \<Rightarrow> bool" where
  "table_kept T T' =
     (tbl_name T' = tbl_name T \<and> prefix (tbl_cols T) (tbl_cols T') \<and>
      list_all2 prefix (tbl_rows T) (tbl_rows T'))"

section \<open>Example stores\<close>

definition id_column :: column where
  "id_column =
     \<lparr>col_name = ''id'', col_type = ''INTEGER'', col_notnull = True, col_dflt = None,
      col_pk = 1\<rparr>"

definition content_column :: column where
  "content_column =
     \<lparr>col_name = ''content'', col_type = ''TEXT'', col_notnull = False, col_dflt = None,
      col_pk = 0\<rparr>"

text \<open>A column named \<open>project_id\<close> that is neither \<open>TEXT\<close> nor defaulted.\<close>

definition odd_project_id_column :: column where
  "odd_project_id_column =
     \<lparr>col_name = ''project_id'', col_type = ''INTEGER'', col_notnull = True,
      col_dflt = None, col_pk = 0\<rparr>"

text \<open>
  \<open>memories\<close> with two rows and no \<open>project_id\<close>, \<open>entities\<close> with a \<open>project_id\<close> of
  another type, \<open>notes\<close> which no requirement names; the other three tables are absent.
\<close>

definition memories_a :: table where
  "memories_a =
     \<lparr>tbl_name = ''memories'', tbl_cols = [id_column, content_column],
      tbl_rows = [[Integer 1, Text ''first''], [Integer 2, Null]],
      tbl_rejects_add = False\<rparr>"

definition entities_a :: table where
  "entities_a =
     \<lparr>tbl_name = ''entities'', tbl_cols = [id_column, odd_project_id_column],
      tbl_rows = [[Integer 7, Integer 3]], tbl_rejects_add = False\<rparr>"

definition notes_a :: table where
  "notes_a =
     \<lparr>tbl_name = ''notes'', tbl_cols = [id_column], tbl_rows = [],
      tbl_rejects_add = False\<rparr>"

definition store_a :: store where
  "store_a = [memories_a, entities_a, notes_a]"

text \<open>The schema of \<open>store_a\<close> with other rows.\<close>

definition store_b :: store where
  "store_b =
     [memories_a\<lparr>tbl_rows := [[Integer 5, Text ''other'']]\<rparr>,
      entities_a\<lparr>tbl_rows := []\<rparr>,
      notes_a\<lparr>tbl_rows := [[Integer 9]]\<rparr>]"

text \<open>\<open>memories\<close> refuses the addition; \<open>entities\<close> and \<open>edges\<close> lack the column too.\<close>

definition store_r :: store where
  "store_r =
     [\<lparr>tbl_name = ''memories'', tbl_cols = [id_column],
       tbl_rows = [[Integer 1]], tbl_rejects_add = True\<rparr>,
      \<lparr>tbl_name = ''entities'', tbl_cols = [id_column],
       tbl_rows = [[Integer 7]], tbl_rejects_add = False\<rparr>,
      \<lparr>tbl_name = ''edges'', tbl_cols = [id_column],
       tbl_rows = [], tbl_rejects_add = False\<rparr>]"

text \<open>\<open>memories\<close> accepts the addition, \<open>entities\<close> refuses it, \<open>edges\<close> comes after.\<close>

definition store_m :: store where
  "store_m =
     [\<lparr>tbl_name = ''memories'', tbl_cols = [id_column],
       tbl_rows = [[Integer 1]], tbl_rejects_add = False\<rparr>,
      \<lparr>tbl_name = ''entities'', tbl_cols = [id_column],
       tbl_rows = [[Integer 7]], tbl_rejects_add = True\<rparr>,
      \<lparr>tbl_name = ''edges'', tbl_cols = [id_column],
       tbl_rows = [], tbl_rejects_add = False\<rparr>]"


definition store_n :: store where
  "store_n =
     [\<lparr>tbl_name = ''my notes'', tbl_cols = [id_column],
       tbl_rows = [], tbl_rejects_add = False\<rparr>,
      memories_a]"


text \<open>A store that accepts every pasted name, and one that refuses names with a space.\<close>

definition accepts_all :: "string \<Rightarrow> error option" where
  "accepts_all n = None"

definition refuses_spaces :: "string \<Rightarrow> error option" where
  "refuses_spaces n = (if CHR '' '' \<in> set n then Some SyntaxError else None)"

text \<open>A store without the table \<open>memories\<close>.\<close>

definition store_e :: store where
  "store_e =
     [\<lparr>tbl_name = ''edges'', tbl_cols = [id_column],
       tbl_rows = [], tbl_rejects_add = False\<rparr>]"

section \<open>Lemmas on the store\<close>

lemma find_table_names: "(t \<in> set (map tbl_name s)) = (find_table s t \<noteq> None)"
  by (induction s) (auto simp: find_table_def)

lemma find_table_name: "find_table s t = Some T \<Longrightarrow> tbl_name T = t"
  by (auto simp: find_table_def dest: find_Some_iff[THEN iffD1])

lemma upgraded_absent: "find_table s t = None \<Longrightarrow> upgraded [t] s = s"
  unfolding upgraded_def by (rule map_idI) (auto simp: spec_outcome_def)

lemma upgraded_present:
  "find_table s t = Some T \<Longrightarrow> has_column T ''project_id'' \<Longrightarrow> upgraded [t] s = s"
  unfolding upgraded_def by (rule map_idI) (auto simp: spec_outcome_def)

lemma upgraded_added:
  "find_table s t = Some T \<Longrightarrow> \<not> has_column T ''project_id'' \<Longrightarrow>
   upgraded [t] s = map (\<lambda>U. if tbl_name U = t then add_column project_id_column U else U) s"
  unfolding upgraded_def by (rule map_cong) (auto simp: spec_outcome_def)

lemma migrate_table_eq:
  assumes "tabs = map tbl_name (db_view w)" "db_view w = db_file w"
  shows "migrate_table tabs t w =
     (if rejected (db_view w) t
      then (Some SchemaChangeRejected,
            w\<lparr>calls := calls w @ [Table_info t, Alter_add t project_id_column],
              stdout := stdout w @ [Adding_line t]\<rparr>)
      else (None,
            w\<lparr>db_file := upgraded [t] (db_view w), db_view := upgraded [t] (db_view w),
              calls := calls w @ outcome_calls t (spec_outcome (db_view w) t),
              stdout := stdout w @ outcome_lines t (spec_outcome (db_view w) t)\<rparr>))"
proof (cases "find_table (db_view w) t")
  case None
  then have "t \<notin> set tabs" using assms(1) find_table_names by metis
  with None assms(2) show ?thesis
    by (simp add: migrate_table_def rejected_def spec_outcome_def upgraded_absent print_line_def)
next
  case (Some T)
  then have mem: "t \<in> set tabs" using assms(1) find_table_names by (metis option.distinct(1))
  show ?thesis
  proof (cases "has_column T ''project_id''")
    case True
    with Some mem assms(2) show ?thesis
      by (simp add: migrate_table_def rejected_def spec_outcome_def upgraded_present
          print_line_def execute_table_info_def table_info_def called_def has_column_def)
  next
    case False
    with Some mem assms(2) show ?thesis
      by (simp add: migrate_table_def rejected_def spec_outcome_def upgraded_added
          print_line_def execute_table_info_def table_info_def called_def has_column_def
          execute_alter_add_def alter_add_column_def project_id_column_def commit_def)
  qed
qed

lemma tbl_name_add_column [simp]: "tbl_name (add_column c T) = tbl_name T"
  by (simp add: add_column_def)

lemma names_upgraded [simp]: "map tbl_name (upgraded ts s) = map tbl_name s"
  by (simp add: upgraded_def comp_def)

lemma find_map_keep:
  assumes "\<And>x. P (f x) = P x" "\<And>x. P x \<Longrightarrow> f x = g x"
  shows "find P (map f xs) = map_option g (find P xs)"
  using assms by (induction xs) auto

lemma find_table_upgraded:
  "find_table (upgraded ts s) u =
     (if u \<in> set ts \<and> spec_outcome s u = Added
      then map_option (add_column project_id_column) (find_table s u)
      else find_table s u)"
proof (cases "u \<in> set ts \<and> spec_outcome s u = Added")
  case True
  then show ?thesis
    unfolding find_table_def upgraded_def
    by (subst find_map_keep[where g = "add_column project_id_column"]) auto
next
  case False
  then show ?thesis
    unfolding find_table_def upgraded_def
    by (subst find_map_keep[where g = "\<lambda>x. x"]) (auto simp: option.map_ident)
qed

lemma has_column_add_other:
  "has_column (add_column c T) n = (has_column T n \<or> n = col_name c)"
  by (auto simp: has_column_def add_column_def)

lemma spec_outcome_upgraded_other:
  "u \<notin> set ts \<Longrightarrow> spec_outcome (upgraded ts s) u = spec_outcome s u"
  by (simp add: spec_outcome_def find_table_upgraded)

lemma rejected_upgraded_other:
  "u \<notin> set ts \<Longrightarrow> rejected (upgraded ts s) u = rejected s u"
  by (simp add: rejected_def find_table_upgraded)

lemma upgraded_Nil [simp]: "upgraded [] s = s"
  by (simp add: upgraded_def)

lemma upgraded_Cons:
  assumes "t \<notin> set ts"
  shows "upgraded ts (upgraded [t] s) = upgraded (t # ts) s"
proof -
  have same: "spec_outcome (upgraded [t] s) u = spec_outcome s u" if "u \<in> set ts" for u
    using that assms by (intro spec_outcome_upgraded_other) auto
  have "upgraded ts (upgraded [t] s) =
        map (\<lambda>T. if tbl_name T \<in> set ts \<and> spec_outcome s (tbl_name T) = Added
                 then add_column project_id_column T else T) (upgraded [t] s)"
    unfolding upgraded_def[of ts] by (rule map_cong) (auto simp: same)
  also have "\<dots> = upgraded (t # ts) s"
    unfolding upgraded_def map_map by (rule map_cong) (use assms in auto)
  finally show ?thesis .
qed

lemma processed_Cons:
  "processed s (t # ts) = (if rejected s t then [] else t # processed s ts)"
  by (simp add: processed_def)

lemma refused_Cons:
  "refused s (t # ts) = (if rejected s t then t # ts else refused s ts)"
  by (simp add: refused_def)

lemma reported_Cons:
  "reported s (t # ts) = outcome_lines t (spec_outcome s t) @ reported s ts"
  by (simp add: reported_def)

lemma issued_Cons:
  "issued s (t # ts) = outcome_calls t (spec_outcome s t) @ issued s ts"
  by (simp add: issued_def)

lemma rejected_after:
  "u \<in> set ts \<Longrightarrow> t \<notin> set ts \<Longrightarrow> rejected (upgraded [t] s) u = rejected s u"
  by (intro rejected_upgraded_other) auto

lemma spec_outcome_after:
  "u \<in> set ts \<Longrightarrow> t \<notin> set ts \<Longrightarrow> spec_outcome (upgraded [t] s) u = spec_outcome s u"
  by (intro spec_outcome_upgraded_other) auto

lemma processed_upgraded:
  "t \<notin> set ts \<Longrightarrow> processed (upgraded [t] s) ts = processed s ts"
  unfolding processed_def
  by (rule takeWhile_cong) (simp_all add: rejected_after)

lemma refused_upgraded:
  "t \<notin> set ts \<Longrightarrow> refused (upgraded [t] s) ts = refused s ts"
  unfolding refused_def
  by (rule dropWhile_cong) (simp_all add: rejected_after)

lemma reported_upgraded:
  "t \<notin> set us \<Longrightarrow> reported (upgraded [t] s) us = reported s us"
  unfolding reported_def
  by (rule arg_cong[where f = concat], rule map_cong) (simp_all add: spec_outcome_after)

lemma issued_upgraded:
  "t \<notin> set us \<Longrightarrow> issued (upgraded [t] s) us = issued s us"
  unfolding issued_def
  by (rule arg_cong[where f = concat], rule map_cong) (simp_all add: spec_outcome_after)

lemma processed_subset: "set (processed s ts) \<subseteq> set ts"
  by (auto simp: processed_def dest: set_takeWhileD)

lemma migrate_loop_eq:
  assumes "distinct ts" "db_view w = db_file w" "tabs = map tbl_name (db_view w)"
  shows "migrate_loop tabs ts w = run_result w ts"
  using assms
proof (induction ts arbitrary: w)
  case Nil
  then show ?case
    by (simp add: run_result_def processed_def refused_def issued_def reported_def)
next
  case (Cons t ts)
  let ?s = "db_view w"
  have step: "migrate_table tabs t w =
     (if rejected ?s t
      then (Some SchemaChangeRejected,
            w\<lparr>calls := calls w @ [Table_info t, Alter_add t project_id_column],
              stdout := stdout w @ [Adding_line t]\<rparr>)
      else (None,
            w\<lparr>db_file := upgraded [t] ?s, db_view := upgraded [t] ?s,
              calls := calls w @ outcome_calls t (spec_outcome ?s t),
              stdout := stdout w @ outcome_lines t (spec_outcome ?s t)\<rparr>))"
    using Cons.prems by (intro migrate_table_eq) auto
  show ?case
  proof (cases "rejected ?s t")
    case True
    with step Cons.prems(2) show ?thesis
      by (simp add: run_result_def processed_Cons refused_Cons issued_def reported_def)
  next
    case False
    define w1 where "w1 = w\<lparr>db_file := upgraded [t] ?s, db_view := upgraded [t] ?s,
              calls := calls w @ outcome_calls t (spec_outcome ?s t),
              stdout := stdout w @ outcome_lines t (spec_outcome ?s t)\<rparr>"
    have notin: "t \<notin> set ts" and dist: "distinct ts" using Cons.prems(1) by auto
    have notin_pre: "t \<notin> set (processed ?s ts)" using notin processed_subset by blast
    have "migrate_loop tabs (t # ts) w = migrate_loop tabs ts w1"
      using step False by (simp add: w1_def)
    also have "\<dots> = run_result w1 ts"
      using dist Cons.prems(3) by (intro Cons.IH) (simp_all add: w1_def)
    also have "\<dots> = run_result w (t # ts)"
      using False notin notin_pre
      by (simp add: run_result_def w1_def processed_upgraded refused_upgraded
          reported_upgraded issued_upgraded upgraded_Cons Let_def
          processed_Cons refused_Cons reported_Cons issued_Cons
          split: list.splits)
    finally show ?thesis .
  qed
qed

section \<open>The whole run in closed form\<close>

lemma distinct_requirements: "distinct tables_needing_project_id"
  by (simp add: tables_needing_project_id_def)

lemma migrate_eq:
  "migrate s =
     (case refused s tables_needing_project_id of
        [] \<Rightarrow>
          (None,
           \<lparr>db_file = upgraded (processed s tables_needing_project_id) s,
            db_view = upgraded (processed s tables_needing_project_id) s,
            conn_open = False,
            calls = Connect # Select_tables #
                    issued s (processed s tables_needing_project_id) @ [Close],
            stdout = Tables_line (map tbl_name s) #
                     reported s (processed s tables_needing_project_id) @ [Complete_line]\<rparr>)
      | t # _ \<Rightarrow>
          (Some SchemaChangeRejected,
           \<lparr>db_file = upgraded (processed s tables_needing_project_id) s,
            db_view = upgraded (processed s tables_needing_project_id) s,
            conn_open = True,
            calls = Connect # Select_tables #
                    issued s (processed s tables_needing_project_id) @
                    [Table_info t, Alter_add t project_id_column],
            stdout = Tables_line (map tbl_name s) #
                     reported s (processed s tables_needing_project_id) @ [Adding_line t]\<rparr>))"
  (is "_ = ?rhs")
proof -
  define w0 where "w0 = print_line (Tables_line (map tbl_name s))
                          (called Select_tables (sqlite3_connect s))"
  have w0: "w0 = \<lparr>db_file = s, db_view = s, conn_open = True,
                  calls = [Connect, Select_tables], stdout = [Tables_line (map tbl_name s)]\<rparr>"
    by (simp add: w0_def print_line_def called_def sqlite3_connect_def)
  have loop: "migrate_loop (map tbl_name s) tables_needing_project_id w0 =
              run_result w0 tables_needing_project_id"
    by (rule migrate_loop_eq) (simp_all add: distinct_requirements w0)
  have "migrate s =
     (case migrate_loop (map tbl_name s) tables_needing_project_id w0 of
        (Some e, w2) \<Rightarrow> (Some e, w2)
      | (None, w2) \<Rightarrow> (None, print_line Complete_line (close w2)))"
    by (simp add: migrate_def execute_select_tables_def select_table_names_def w0_def
        sqlite3_connect_def)
  also have "\<dots> = ?rhs"
    unfolding loop
    by (simp add: run_result_def w0 Let_def print_line_def close_def called_def
        split: list.splits)
  finally show ?thesis .
qed

lemma fst_migrate:
  "fst (migrate s) =
     (if refused s tables_needing_project_id = [] then None else Some SchemaChangeRejected)"
  by (simp add: migrate_eq split: list.splits)

lemma db_file_migrate:
  "db_file (snd (migrate s)) = upgraded (processed s tables_needing_project_id) s"
  by (simp add: migrate_eq split: list.splits)

lemma conn_open_migrate:
  "conn_open (snd (migrate s)) = (refused s tables_needing_project_id \<noteq> [])"
  by (simp add: migrate_eq split: list.splits)

lemma refused_head: "refused s ts = t # rest \<Longrightarrow> rejected s t"
  unfolding refused_def using hd_dropWhile[of "\<lambda>t. \<not> rejected s t" ts] by fastforce

lemma rejected_Added: "rejected s t \<Longrightarrow> spec_outcome s t = Added"
  by (auto simp: rejected_def spec_outcome_def split: option.splits)

lemma alter_in_calls:
  "Alter_add t c \<in> set (outcome_calls u out) \<Longrightarrow> u = t \<and> out = Added"
  by (cases out) auto

lemma alter_in_issued:
  "Alter_add t c \<in> set (issued s us) \<Longrightarrow> spec_outcome s t = Added"
  by (auto simp: issued_def dest: alter_in_calls)

lemma split_at_first_rejected:
  assumes "ts = pre @ t # rest" "\<forall>u \<in> set pre. \<not> rejected s u" "rejected s t"
  shows "processed s ts = pre \<and> refused s ts = t # rest"
  using assms by (induction pre arbitrary: ts) (auto simp: processed_def refused_def)

lemma table_kept_refl: "table_kept T T"
  by (simp add: table_kept_def list_all2_same)

lemma table_kept_add: "table_kept T (add_column c T)"
  by (simp add: table_kept_def add_column_def list_all2_map2 list_all2_same)

lemma kept_upgraded: "list_all2 table_kept s (upgraded ts s)"
  by (simp add: upgraded_def list_all2_map2 list_all2_same table_kept_refl table_kept_add)

section \<open>Running the script again\<close>

lemma spec_outcome_upgraded:
  "spec_outcome (upgraded ts s) u =
     (if u \<in> set ts \<and> spec_outcome s u = Added then Already_present else spec_outcome s u)"
  by (auto simp: spec_outcome_def find_table_upgraded has_column_add_other
      project_id_column_def split: option.splits)

lemma rejects_add_column [simp]: "tbl_rejects_add (add_column c T) = tbl_rejects_add T"
  by (simp add: add_column_def)

lemma has_project_id_added [simp]: "has_column (add_column project_id_column T) ''project_id''"
  by (simp add: has_column_add_other project_id_column_def)

lemma rejected_upgraded:
  "rejected (upgraded ts s) u = (rejected s u \<and> u \<notin> set ts)"
proof (cases "find_table s u")
  case None
  then show ?thesis by (simp add: rejected_def find_table_upgraded spec_outcome_def)
next
  case (Some T)
  then show ?thesis
    by (auto simp: rejected_def find_table_upgraded spec_outcome_def)
qed

lemma not_rejected_processed: "u \<in> set (processed s ts) \<Longrightarrow> \<not> rejected s u"
  by (auto simp: processed_def dest: set_takeWhileD)

lemma rejected_again:
  "rejected (upgraded (processed s ts) s) u = rejected s u"
  using not_rejected_processed[of u s ts] by (auto simp: rejected_upgraded)

lemma processed_again:
  "processed (upgraded (processed s ts) s) ts = processed s ts"
  by (simp add: processed_def rejected_again[unfolded processed_def])

lemma refused_again:
  "refused (upgraded (processed s ts) s) ts = refused s ts"
  by (simp add: refused_def rejected_again)

lemma upgraded_idem: "upgraded ts (upgraded ts s) = upgraded ts s"
  unfolding upgraded_def[of ts "upgraded ts s"]
  by (rule map_idI) (auto simp: spec_outcome_upgraded)

lemma done_in_lines: "Done_line \<in> set (outcome_lines u out) \<Longrightarrow> out = Added"
  by (cases out) auto

lemma done_in_reported:
  "Done_line \<in> set (reported s us) \<Longrightarrow> \<exists>u \<in> set us. spec_outcome s u = Added"
  by (auto simp: reported_def dest: done_in_lines)

lemma no_added_after:
  "u \<in> set ts \<Longrightarrow> spec_outcome (upgraded ts s) u \<noteq> Added"
  by (simp add: spec_outcome_upgraded)

section \<open>Reading the added column\<close>

lemma keys_zip: "length xs = length ys \<Longrightarrow> fst ` set (zip xs ys) = set xs"
  by (metis list.set_map map_fst_zip)

lemma read_added_column:
  assumes "length r = length (tbl_cols T)" "\<not> has_column T (col_name c)"
  shows "read_column (add_column c T) (r @ [v]) (col_name c) = Some v"
proof -
  have none: "map_of (zip (map col_name (tbl_cols T)) r) (col_name c) = None"
    using assms by (simp add: has_column_def map_of_eq_None_iff keys_zip)
  show ?thesis
    using assms(1) by (simp add: read_column_def add_column_def map_add_def none)
qed

section \<open>Stores with the same schema\<close>

lemma find_schema:
  "schema_of s1 = schema_of s2 \<Longrightarrow>
   map_option (\<lambda>T. (tbl_cols T, tbl_rejects_add T)) (find_table s1 t) =
   map_option (\<lambda>T. (tbl_cols T, tbl_rejects_add T)) (find_table s2 t)"
proof (induction s1 arbitrary: s2)
  case Nil
  then show ?case by (simp add: schema_of_def find_table_def)
next
  case (Cons T s1)
  then obtain U s2' where s2: "s2 = U # s2'" by (cases s2) (auto simp: schema_of_def)
  with Cons.prems have "schema_of s1 = schema_of s2'"
    and "tbl_name T = tbl_name U" "tbl_cols T = tbl_cols U"
    "tbl_rejects_add T = tbl_rejects_add U"
    by (simp_all add: schema_of_def)
  with Cons.IH[of s2'] show ?case
    by (simp add: s2 find_table_def)
qed

lemma spec_outcome_schema:
  assumes "schema_of s1 = schema_of s2"
  shows "spec_outcome s1 t = spec_outcome s2 t"
  using find_schema[OF assms, of t]
  by (cases "find_table s1 t"; cases "find_table s2 t")
     (auto simp: spec_outcome_def has_column_def)

lemma rejected_schema:
  assumes "schema_of s1 = schema_of s2"
  shows "rejected s1 t = rejected s2 t"
  using find_schema[OF assms, of t]
  by (cases "find_table s1 t"; cases "find_table s2 t")
     (auto simp: rejected_def has_column_def)

lemma names_schema: "map tbl_name s = map fst (schema_of s)"
  by (simp add: schema_of_def)

lemma schema_upgraded_eq:
  "schema_of (upgraded ts s) =
     map (\<lambda>(n, cs, r). if n \<in> set ts \<and> spec_outcome s n = Added
                        then (n, cs @ [project_id_column], r) else (n, cs, r))
         (schema_of s)"
  by (simp add: schema_of_def upgraded_def add_column_def)

lemma schema_upgraded:
  assumes "schema_of s1 = schema_of s2"
  shows "schema_of (upgraded ts s1) = schema_of (upgraded ts s2)"
proof -
  have "spec_outcome s1 = spec_outcome s2"
    using spec_outcome_schema[OF assms] by (rule ext)
  then show ?thesis
    by (simp add: schema_upgraded_eq assms)
qed

section \<open>The ways check_schema.py ends\<close>

lemma print_columns_eq:
  "print_columns cols w =
     w\<lparr>stdout := stdout w @
        map (\<lambda>col. Column_line (col_name col) (col_type col) (\<not> col_notnull col) (col_dflt col))
          cols\<rparr>"
  by (induction cols arbitrary: w) (simp_all add: print_line_def)

lemma describe_tables_keeps:
  "describe_tables fails vs ts w = (r, w') \<Longrightarrow>
   db_file w' = db_file w \<and> db_view w' = db_view w \<and> conn_open w' = conn_open w"
proof (induction ts arbitrary: w)
  case Nil
  then show ?case by simp
next
  case (Cons t ts)
  show ?case
  proof (cases "fails t")
    case None
    with Cons.prems
    have "describe_tables fails vs ts
            (print_columns (resolved_info (db_view w) vs t)
               (print_line (Table_header t) (called (Table_info t) w))) = (r, w')"
      by (simp add: execute_table_info_pasted_def)
    from Cons.IH[OF this] show ?thesis
      by (simp add: print_columns_eq print_line_def called_def)
  next
    case (Some e)
    with Cons.prems show ?thesis
      by (auto simp: execute_table_info_pasted_def called_def)
  qed
qed

lemma describe_tables_calls:
  "describe_tables fails vs ts w = (r, w') \<Longrightarrow> \<exists>ns. calls w' = calls w @ map Table_info ns"
proof (induction ts arbitrary: w)
  case Nil
  then show ?case by simp
next
  case (Cons t ts)
  show ?case
  proof (cases "fails t")
    case None
    with Cons.prems
    have "describe_tables fails vs ts
            (print_columns (resolved_info (db_view w) vs t)
               (print_line (Table_header t) (called (Table_info t) w))) = (r, w')"
      by (simp add: execute_table_info_pasted_def)
    from Cons.IH[OF this] obtain ns where
      "calls w' = calls w @ Table_info t # map Table_info ns"
      by (auto simp: print_columns_eq print_line_def called_def)
    then have "calls w' = calls w @ map Table_info (t # ns)" by simp
    then show ?thesis by blast
  next
    case (Some e)
    with Cons.prems have "calls w' = calls w @ map Table_info [t]"
      by (auto simp: execute_table_info_pasted_def called_def)
    then show ?thesis by blast
  qed
qed

lemma describe_tables_no_total:
  "describe_tables fails vs ts w = (r, w') \<Longrightarrow>
   Total_line n \<in> set (stdout w') \<Longrightarrow> Total_line n \<in> set (stdout w)"
proof (induction ts arbitrary: w)
  case Nil
  then show ?case by simp
next
  case (Cons t ts)
  show ?case
  proof (cases "fails t")
    case None
    with Cons.prems(1)
    have "describe_tables fails vs ts
            (print_columns (resolved_info (db_view w) vs t)
               (print_line (Table_header t) (called (Table_info t) w))) = (r, w')"
      by (simp add: execute_table_info_pasted_def)
    from Cons.IH[OF this Cons.prems(2)] show ?thesis
      by (auto simp: print_columns_eq print_line_def called_def)
  next
    case (Some e)
    with Cons.prems show ?thesis
      by (auto simp: execute_table_info_pasted_def called_def)
  qed
qed

lemma describe_tables_result:
  "fst (describe_tables fails vs ts w) = None \<longleftrightarrow> (\<forall>t \<in> set ts. fails t = None)"
proof (induction ts arbitrary: w)
  case Nil
  then show ?case by simp
next
  case (Cons t ts)
  then show ?case
    by (cases "fails t") (simp_all add: execute_table_info_pasted_def)
qed

text \<open>The three ways the listing script ends.\<close>

lemma check_schema_cases [case_names listing_failed count_failed counted]:
  assumes "\<And>e w ns.
      check_schema fails vs s = (Some e, w) \<Longrightarrow> conn_open w \<Longrightarrow>
      calls w = Connect # Select_tables # map Table_info ns \<Longrightarrow>
      \<not> (\<forall>n \<in> set (map tbl_name s). fails n = None) \<Longrightarrow> P"
    and "\<And>e w.
      check_schema fails vs s = (Some e, w) \<Longrightarrow> conn_open w \<Longrightarrow>
      count_rows s vs ''memories'' = Inl e \<Longrightarrow>
      last (calls w) = Select_count ''memories'' \<Longrightarrow> Close \<notin> set (calls w) \<Longrightarrow>
      Select_count ''memories'' \<in> set (calls w) \<Longrightarrow>
      (\<forall>n. Total_line n \<notin> set (stdout w)) \<Longrightarrow>
      (\<forall>n \<in> set (map tbl_name s). fails n = None) \<Longrightarrow> P"
    and "\<And>n w.
      check_schema fails vs s = (None, w) \<Longrightarrow> \<not> conn_open w \<Longrightarrow>
      count_rows s vs ''memories'' = Inr n \<Longrightarrow>
      last (calls w) = Close \<Longrightarrow> Close \<in> set (calls w) \<Longrightarrow>
      Select_count ''memories'' \<in> set (calls w) \<Longrightarrow>
      last (stdout w) = Total_line n \<Longrightarrow>
      (\<forall>n \<in> set (map tbl_name s). fails n = None) \<Longrightarrow> P"
  shows P
proof -
  define w0 where "w0 = print_line (Tables_line (map tbl_name s))
                          (called Select_tables (sqlite3_connect s))"
  have w0: "w0 = \<lparr>db_file = s, db_view = s, conn_open = True,
                  calls = [Connect, Select_tables], stdout = [Tables_line (map tbl_name s)]\<rparr>"
    by (simp add: w0_def print_line_def called_def sqlite3_connect_def)
  obtain r w2 where d: "describe_tables fails vs (map tbl_name s) w0 = (r, w2)"
    by (cases "describe_tables fails vs (map tbl_name s) w0") auto
  have keeps: "db_view w2 = s" "conn_open w2"
    using describe_tables_keeps[OF d] by (simp_all add: w0)
  obtain ns where cs: "calls w2 = Connect # Select_tables # map Table_info ns"
    using describe_tables_calls[OF d] by (auto simp: w0)
  have nototal: "Total_line n \<notin> set (stdout w2)" for n
    using describe_tables_no_total[OF d, of n] by (auto simp: w0)
  have res: "(r = None) = (\<forall>n \<in> set (map tbl_name s). fails n = None)"
    using describe_tables_result[of fails vs "map tbl_name s" w0] d by simp
  have unfold: "check_schema fails vs s =
     (case (r, w2) of
        (Some e, w2) \<Rightarrow> (Some e, w2)
      | (None, w2) \<Rightarrow>
          (case execute_select_count vs ''memories'' w2 of
             (Inl e, w3) \<Rightarrow> (Some e, w3)
           | (Inr n, w3) \<Rightarrow> (None, close (print_line (Total_line n) w3))))"
  proof -
    have v: "db_view (sqlite3_connect s) = s"
      by (simp add: sqlite3_connect_def)
    show ?thesis
      by (simp add: check_schema_def execute_select_tables_def select_table_names_def v
          w0_def[symmetric] d)
  qed
  show P
  proof (cases r)
    case (Some e)
    with unfold have "check_schema fails vs s = (Some e, w2)" by simp
    then show P using assms(1) keeps cs res Some by blast
  next
    case None
    note rn = None
    show P
    proof (cases "count_rows s vs ''memories''")
      case (Inl e)
      have "check_schema fails vs s = (Some e, called (Select_count ''memories'') w2)"
        using unfold rn Inl keeps by (simp add: execute_select_count_def)
      then show P
        using assms(2)[of e "called (Select_count ''memories'') w2"] keeps cs nototal res rn Inl
        by (auto simp: called_def)
    next
      case (Inr n)
      have "check_schema fails vs s =
            (None, close (print_line (Total_line n) (called (Select_count ''memories'') w2)))"
        using unfold rn Inr keeps by (simp add: execute_select_count_def)
      then show P
        using assms(3)[of "close (print_line (Total_line n)
                 (called (Select_count ''memories'') w2))" n] keeps cs res rn Inr
        by (auto simp: called_def close_def print_line_def)
    qed
  qed
qed

lemma close_not_in_calls: "Close \<notin> set (outcome_calls u out)"
  by (cases out) auto

section \<open>The claims\<close>

text \<open>
  C1, as the code has it. The run handles the fixed requirement list in its order up to the
  first requirement whose column addition the store refuses, where it ends with the error;
  when the store refuses none it handles the whole list and ends normally. For every
  requirement it handles it emits exactly the lines of its outcome: \<open>table-absent\<close> when
  the table does not exist (no call is made for it), \<open>already-present\<close> when it exists with
  a column named \<open>project_id\<close> (only the column listing is read, the table stays as it
  is), and \<open>added\<close> when it exists without one. In the last case the calls are the column
  listing, one \<open>ALTER TABLE ... ADD COLUMN project_id TEXT DEFAULT 'global'\<close> and the commit,
  in this order and before any call of the next requirement, and the table of the committed
  store is the former table with the column \<open>project_id\<close>, of type \<open>TEXT\<close> and default
  \<open>global\<close>, appended and that default appended to every row.
\<close>

theorem outcomes_until_refusal:
  "stdout (snd (migrate s)) =
     Tables_line (map tbl_name s) #
     concat (map (\<lambda>t. outcome_lines t (spec_outcome s t))
               (processed s tables_needing_project_id)) @
     (case refused s tables_needing_project_id of
        [] \<Rightarrow> [Complete_line]
      | t # _ \<Rightarrow> [Adding_line t]) \<and>
   calls (snd (migrate s)) =
     Connect # Select_tables #
     concat (map (\<lambda>t. outcome_calls t (spec_outcome s t))
               (processed s tables_needing_project_id)) @
     (case refused s tables_needing_project_id of
        [] \<Rightarrow> [Close]
      | t # _ \<Rightarrow> [Table_info t, Alter_add t project_id_column]) \<and>
   (\<forall>t \<in> set (processed s tables_needing_project_id). \<forall>T.
      find_table s t = Some T \<longrightarrow>
      find_table (db_file (snd (migrate s))) t =
        Some (if has_column T ''project_id'' then T
              else T\<lparr>tbl_cols := tbl_cols T @
                       [\<lparr>col_name = ''project_id'', col_type = ''TEXT'', col_notnull = False,
                         col_dflt = Some (Text ''global''), col_pk = 0\<rparr>],
                     tbl_rows := map (\<lambda>r. r @ [Text ''global'']) (tbl_rows T)\<rparr>)) \<and>
   processed s tables_needing_project_id @ refused s tables_needing_project_id =
     tables_needing_project_id \<and>
   (\<forall>t \<in> set (processed s tables_needing_project_id). \<not> rejected s t) \<and>
   (case refused s tables_needing_project_id of
      [] \<Rightarrow> fst (migrate s) = None
    | t # _ \<Rightarrow> rejected s t \<and> fst (migrate s) = Some SchemaChangeRejected)"
proof -
  let ?ts = "tables_needing_project_id"
  have out: "stdout (snd (migrate s)) =
     Tables_line (map tbl_name s) #
     concat (map (\<lambda>t. outcome_lines t (spec_outcome s t)) (processed s ?ts)) @
     (case refused s ?ts of [] \<Rightarrow> [Complete_line] | t # _ \<Rightarrow> [Adding_line t])"
    by (simp add: migrate_eq reported_def split: list.splits)
  have cs: "calls (snd (migrate s)) =
     Connect # Select_tables #
     concat (map (\<lambda>t. outcome_calls t (spec_outcome s t)) (processed s ?ts)) @
     (case refused s ?ts of
        [] \<Rightarrow> [Close]
      | t # _ \<Rightarrow> [Table_info t, Alter_add t project_id_column])"
    by (simp add: migrate_eq issued_def split: list.splits)
  have tab: "find_table (db_file (snd (migrate s))) t =
        Some (if has_column T ''project_id'' then T
              else T\<lparr>tbl_cols := tbl_cols T @
                       [\<lparr>col_name = ''project_id'', col_type = ''TEXT'', col_notnull = False,
                         col_dflt = Some (Text ''global''), col_pk = 0\<rparr>],
                     tbl_rows := map (\<lambda>r. r @ [Text ''global'']) (tbl_rows T)\<rparr>)"
    if "t \<in> set (processed s ?ts)" "find_table s t = Some T" for t T
    using that
    by (simp add: db_file_migrate find_table_upgraded spec_outcome_def add_column_def
        default_value_def project_id_column_def)
  have split: "processed s ?ts @ refused s ?ts = ?ts"
    by (simp add: processed_def refused_def)
  have pre: "\<forall>t \<in> set (processed s ?ts). \<not> rejected s t"
    by (auto dest: not_rejected_processed)
  have res: "(case refused s ?ts of
      [] \<Rightarrow> fst (migrate s) = None
    | t # _ \<Rightarrow> rejected s t \<and> fst (migrate s) = Some SchemaChangeRejected)"
    by (auto simp: fst_migrate split: list.splits dest: refused_head)
  from out cs tab split pre res show ?thesis by blast
qed

theorem outcomes_until_refusal_witness:
  "processed store_a tables_needing_project_id = tables_needing_project_id \<and>
   refused store_a tables_needing_project_id = [] \<and>
   fst (migrate store_a) = None \<and>
   stdout (snd (migrate store_a)) =
     [Tables_line [''memories'', ''entities'', ''notes''],
      Adding_line ''memories'', Done_line, Exists_line ''entities'',
      Absent_line ''edges'', Absent_line ''scratchpad'', Absent_line ''entity_relations'',
      Complete_line] \<and>
   calls (snd (migrate store_a)) =
     [Connect, Select_tables, Table_info ''memories'',
      Alter_add ''memories'' project_id_column, Commit, Table_info ''entities'', Close] \<and>
   find_table store_a ''memories'' = Some memories_a \<and>
   \<not> has_column memories_a ''project_id'' \<and>
   find_table (db_file (snd (migrate store_a))) ''memories'' =
     Some (memories_a
            \<lparr>tbl_cols := tbl_cols memories_a @
               [\<lparr>col_name = ''project_id'', col_type = ''TEXT'', col_notnull = False,
                 col_dflt = Some (Text ''global''), col_pk = 0\<rparr>],
             tbl_rows := map (\<lambda>r. r @ [Text ''global'']) (tbl_rows memories_a)\<rparr>)"
proof -
  let ?ts = "tables_needing_project_id"
  have pre: "processed store_a ?ts = ?ts" and ref: "refused store_a ?ts = []"
    by code_simp+
  have mem: "''memories'' \<in> set (processed store_a ?ts)"
    by code_simp
  have h1: "find_table store_a ''memories'' = Some memories_a"
    by (simp add: find_table_def store_a_def memories_a_def)
  have h2: "\<not> has_column memories_a ''project_id''"
    by code_simp
  have lines: "Tables_line (map tbl_name store_a) #
      concat (map (\<lambda>t. outcome_lines t (spec_outcome store_a t)) ?ts) @ [Complete_line] =
     [Tables_line [''memories'', ''entities'', ''notes''],
      Adding_line ''memories'', Done_line, Exists_line ''entities'',
      Absent_line ''edges'', Absent_line ''scratchpad'', Absent_line ''entity_relations'',
      Complete_line]"
    by code_simp
  have cs: "Connect # Select_tables #
      concat (map (\<lambda>t. outcome_calls t (spec_outcome store_a t)) ?ts) @ [Close] =
     [Connect, Select_tables, Table_info ''memories'',
      Alter_add ''memories'' project_id_column, Commit, Table_info ''entities'', Close]"
    by code_simp
  note run = outcomes_until_refusal[of store_a]
  from run have out: "stdout (snd (migrate store_a)) =
     Tables_line (map tbl_name store_a) #
     concat (map (\<lambda>t. outcome_lines t (spec_outcome store_a t)) (processed store_a ?ts)) @
     (case refused store_a ?ts of [] \<Rightarrow> [Complete_line] | t # _ \<Rightarrow> [Adding_line t])"
    by blast
  from run have call: "calls (snd (migrate store_a)) =
     Connect # Select_tables #
     concat (map (\<lambda>t. outcome_calls t (spec_outcome store_a t)) (processed store_a ?ts)) @
     (case refused store_a ?ts of
        [] \<Rightarrow> [Close]
      | t # _ \<Rightarrow> [Table_info t, Alter_add t project_id_column])"
    by blast
  from run have res: "(case refused store_a ?ts of
      [] \<Rightarrow> fst (migrate store_a) = None
    | t # _ \<Rightarrow> rejected store_a t \<and> fst (migrate store_a) = Some SchemaChangeRejected)"
    by blast
  from run mem h1 have tab: "find_table (db_file (snd (migrate store_a))) ''memories'' =
        Some (if has_column memories_a ''project_id'' then memories_a
              else memories_a\<lparr>tbl_cols := tbl_cols memories_a @
                       [\<lparr>col_name = ''project_id'', col_type = ''TEXT'', col_notnull = False,
                         col_dflt = Some (Text ''global''), col_pk = 0\<rparr>],
                     tbl_rows := map (\<lambda>r. r @ [Text ''global'']) (tbl_rows memories_a)\<rparr>)"
    by blast
  show ?thesis
    using pre ref h1 h2 out call res tab lines cs by simp
qed

text \<open>
  C1 as stated fails. In \<open>store_r\<close> the tables \<open>memories\<close> and \<open>entities\<close> both exist
  without the column. The addition to \<open>memories\<close> is refused: the change is issued but
  never committed, and none of the three outcomes is emitted for it. The requirement
  \<open>entities\<close> gets none of the three outcomes either: no line names it, no \<open>ALTER TABLE\<close>
  is issued for it, and it still lacks the column after the run.
\<close>

theorem three_outcomes_counterexample:
  "spec_outcome store_r ''memories'' = Added \<and>
   spec_outcome store_r ''entities'' = Added \<and>
   stdout (snd (migrate store_r)) =
     [Tables_line [''memories'', ''entities'', ''edges''], Adding_line ''memories''] \<and>
   Commit \<notin> set (calls (snd (migrate store_r))) \<and>
   Alter_add ''entities'' project_id_column \<notin> set (calls (snd (migrate store_r))) \<and>
   spec_outcome (db_file (snd (migrate store_r))) ''entities'' = Added"
  by code_simp

text \<open>
  C3, as the code has it. When the store refuses the column addition of a requirement, the
  exception is caught nowhere: the run ends there with the error. The output ends with the
  \<open>Adding project_id to ...\<close> line of that requirement, so no failed outcome is recorded and
  no completion line is printed; the last call is the refused \<open>ALTER TABLE\<close>, so no call
  is made for any later requirement and the tables of the refused and of the later
  requirements stay as they were. The additions of the earlier requirements are committed.
\<close>

theorem rejection_ends_run:
  assumes "tables_needing_project_id = pre @ t # rest"
    and "\<forall>u \<in> set pre. \<not> rejected s u"
    and "rejected s t"
  shows "fst (migrate s) = Some SchemaChangeRejected \<and>
         stdout (snd (migrate s)) =
           Tables_line (map tbl_name s) # reported s pre @ [Adding_line t] \<and>
         calls (snd (migrate s)) =
           Connect # Select_tables # issued s pre @
           [Table_info t, Alter_add t project_id_column] \<and>
         db_file (snd (migrate s)) = upgraded pre s \<and>
         (\<forall>u \<in> set (t # rest). find_table (db_file (snd (migrate s))) u = find_table s u)"
proof -
  have split: "processed s tables_needing_project_id = pre"
              "refused s tables_needing_project_id = t # rest"
    using split_at_first_rejected[OF assms] by simp_all
  have "distinct (pre @ t # rest)"
    using distinct_requirements assms(1) by simp
  then have "u \<notin> set pre" if "u \<in> set (t # rest)" for u
    using that by auto
  then have "\<forall>u \<in> set (t # rest). find_table (upgraded pre s) u = find_table s u"
    by (simp add: find_table_upgraded)
  then show ?thesis
    by (simp add: migrate_eq split)
qed

theorem rejection_ends_run_witness:
  "rejected store_m ''entities'' \<and>
   fst (migrate store_m) = Some SchemaChangeRejected \<and>
   stdout (snd (migrate store_m)) =
     [Tables_line [''memories'', ''entities'', ''edges''],
      Adding_line ''memories'', Done_line, Adding_line ''entities''] \<and>
   find_table (db_file (snd (migrate store_m))) ''edges'' = find_table store_m ''edges''"
proof -
  have h1: "tables_needing_project_id =
            [''memories''] @ ''entities'' # [''edges'', ''scratchpad'', ''entity_relations'']"
    by (simp add: tables_needing_project_id_def)
  have h2: "\<forall>u \<in> set [''memories'']. \<not> rejected store_m u"
    by code_simp
  have h3: "rejected store_m ''entities''"
    by code_simp
  have lines: "Tables_line (map tbl_name store_m) # reported store_m [''memories''] @
               [Adding_line ''entities''] =
     [Tables_line [''memories'', ''entities'', ''edges''],
      Adding_line ''memories'', Done_line, Adding_line ''entities'']"
    by code_simp
  have later: "''edges'' \<in> set (''entities'' # [''edges'', ''scratchpad'', ''entity_relations''])"
    by simp
  have run: "fst (migrate store_m) = Some SchemaChangeRejected"
    and out: "stdout (snd (migrate store_m)) =
       Tables_line (map tbl_name store_m) # reported store_m [''memories''] @
       [Adding_line ''entities'']"
    and rest: "\<forall>u \<in> set (''entities'' # [''edges'', ''scratchpad'', ''entity_relations'']).
       find_table (db_file (snd (migrate store_m))) u = find_table store_m u"
    using rejection_ends_run[OF h1 h2 h3] by blast+
  from rest later
  have "find_table (db_file (snd (migrate store_m))) ''edges'' = find_table store_m ''edges''"
    by blast
  with h3 run out lines show ?thesis by simp
qed

text \<open>
  C3 as stated fails. In \<open>store_r\<close> the table \<open>memories\<close> refuses the addition and
  \<open>entities\<close>, later in the list, exists without the column. The run ends with the error
  after two lines, none of them a failure record, and makes no call for \<open>entities\<close>.
\<close>

theorem failure_isolation_counterexample:
  "rejected store_r ''memories'' \<and>
   spec_outcome store_r ''entities'' = Added \<and>
   fst (migrate store_r) = Some SchemaChangeRejected \<and>
   stdout (snd (migrate store_r)) =
     [Tables_line [''memories'', ''entities'', ''edges''], Adding_line ''memories''] \<and>
   calls (snd (migrate store_r)) =
     [Connect, Select_tables, Table_info ''memories'',
      Alter_add ''memories'' project_id_column] \<and>
   db_file (snd (migrate store_r)) = store_r"
  by code_simp

text \<open>
  C5. Whatever the store and however the run ends, every table of the store is kept by the
  table at the same place of the committed store after the run (and of the store seen
  through the connection): the same name, the former columns unchanged and in place with
  at most new columns after them, the same number of rows, and in every row the former
  values unchanged.
\<close>

theorem migrate_additive:
  "list_all2 table_kept s (db_file (snd (migrate s))) \<and>
   list_all2 table_kept s (db_view (snd (migrate s)))"
  by (simp add: migrate_eq kept_upgraded split: list.splits)

theorem migrate_additive_witness:
  "list_all2 table_kept store_a (db_file (snd (migrate store_a))) \<and>
   map (\<lambda>T. length (tbl_rows T)) (db_file (snd (migrate store_a))) = [2, 1, 0] \<and>
   map (\<lambda>T. length (tbl_rows T)) store_a = [2, 1, 0]"
proof -
  have "map (\<lambda>T. length (tbl_rows T)) (db_file (snd (migrate store_a))) = [2, 1, 0]"
    by code_simp
  moreover have "map (\<lambda>T. length (tbl_rows T)) store_a = [2, 1, 0]"
    by code_simp
  ultimately show ?thesis
    using migrate_additive[of store_a] by simp
qed

text \<open>
  C6. The tables of the committed store after a run are the tables before it, name for name
  in the same order: a table that is absent before the run is absent after it, and a table
  that is present after the run was present before.
\<close>

theorem migrate_creates_no_table:
  "map tbl_name (db_file (snd (migrate s))) = map tbl_name s \<and>
   (\<forall>t. find_table s t = None \<longrightarrow> find_table (db_file (snd (migrate s))) t = None) \<and>
   (\<forall>t. find_table (db_file (snd (migrate s))) t = None \<longrightarrow> find_table s t = None)"
proof -
  have names: "map tbl_name (db_file (snd (migrate s))) = map tbl_name s"
    by (simp add: db_file_migrate)
  have "(find_table (db_file (snd (migrate s))) t = None) = (find_table s t = None)" for t
    using find_table_names[of t s] find_table_names[of t "db_file (snd (migrate s))"] names
    by metis
  with names show ?thesis by simp
qed

theorem migrate_creates_no_table_witness:
  "find_table store_a ''scratchpad'' = None \<and>
   find_table (db_file (snd (migrate store_a))) ''scratchpad'' = None \<and>
   map tbl_name (db_file (snd (migrate store_a))) = [''memories'', ''entities'', ''notes'']"
proof -
  have h: "find_table store_a ''scratchpad'' = None"
    by code_simp
  have names: "map tbl_name store_a = [''memories'', ''entities'', ''notes'']"
    by code_simp
  show ?thesis
    using h names migrate_creates_no_table[of store_a] by simp
qed

text \<open>
  C9. A table that has a column named \<open>project_id\<close>, whatever the type, the nullability
  and the default of that column, is left exactly as it is by the run, and the run issues
  no \<open>ALTER TABLE\<close> for it.
\<close>

theorem present_by_name_only:
  assumes "find_table s t = Some T" "c \<in> set (tbl_cols T)" "col_name c = ''project_id''"
  shows "find_table (db_file (snd (migrate s))) t = Some T \<and>
         (\<forall>c'. Alter_add t c' \<notin> set (calls (snd (migrate s))))"
proof -
  have has: "has_column T ''project_id''"
    using assms(2,3) by (force simp: has_column_def)
  with assms(1) have present: "spec_outcome s t = Already_present"
    by (simp add: spec_outcome_def)
  have "find_table (db_file (snd (migrate s))) t = Some T"
    using assms(1) present by (simp add: db_file_migrate find_table_upgraded)
  moreover have "Alter_add t c' \<notin> set (calls (snd (migrate s)))" for c'
  proof
    assume a: "Alter_add t c' \<in> set (calls (snd (migrate s)))"
    show False
    proof (cases "refused s tables_needing_project_id")
      case Nil
      with a have "Alter_add t c' \<in> set (issued s (processed s tables_needing_project_id))"
        by (simp add: migrate_eq)
      with present show False by (auto dest: alter_in_issued)
    next
      case (Cons t0 rest)
      with a have "Alter_add t c' \<in> set (issued s (processed s tables_needing_project_id))
                   \<or> t = t0"
        by (auto simp: migrate_eq)
      moreover have "rejected s t0" using Cons by (rule refused_head)
      ultimately show False using present by (auto dest: alter_in_issued rejected_Added)
    qed
  qed
  ultimately show ?thesis by simp
qed

theorem present_by_name_only_witness:
  "find_table store_a ''entities'' = Some entities_a \<and>
   odd_project_id_column \<in> set (tbl_cols entities_a) \<and>
   col_type odd_project_id_column = ''INTEGER'' \<and>
   col_dflt odd_project_id_column = None \<and>
   find_table (db_file (snd (migrate store_a))) ''entities'' = Some entities_a \<and>
   Alter_add ''entities'' project_id_column \<notin> set (calls (snd (migrate store_a)))"
proof -
  have h1: "find_table store_a ''entities'' = Some entities_a"
    by (simp add: find_table_def store_a_def memories_a_def entities_a_def)
  have h2: "odd_project_id_column \<in> set (tbl_cols entities_a)"
    by (simp add: entities_a_def)
  have h3: "col_name odd_project_id_column = ''project_id''"
    by (simp add: odd_project_id_column_def)
  show ?thesis
    using h1 h2 present_by_name_only[OF h1 h2 h3]
    by (simp add: odd_project_id_column_def)
qed

text \<open>
  C2. The second run leaves the committed store exactly as the first run left it, and never
  prints \<open>Done!\<close>, the line that reports an added column. When the first run ended
  normally, the second one does too: no requirement has the outcome \<open>added\<close> any more, the
  output is the table list, one \<open>project_id exists\<close> or \<open>table does not exist\<close> line for
  each requirement in order and the completion line, and no \<open>ALTER TABLE\<close> is issued.
\<close>

theorem migrate_idempotent:
  "db_file (snd (second_run s)) = db_file (snd (migrate s)) \<and>
   Done_line \<notin> set (stdout (snd (second_run s))) \<and>
   (fst (migrate s) = None \<longrightarrow>
      fst (second_run s) = None \<and>
      (\<forall>t \<in> set tables_needing_project_id.
         spec_outcome (db_file (snd (migrate s))) t \<noteq> Added) \<and>
      stdout (snd (second_run s)) =
        Tables_line (map tbl_name s) #
        concat (map (\<lambda>t. outcome_lines t (spec_outcome (db_file (snd (migrate s))) t))
                  tables_needing_project_id) @
        [Complete_line] \<and>
      (\<forall>t c. Alter_add t c \<notin> set (calls (snd (second_run s)))))"
proof -
  let ?ts = "tables_needing_project_id"
  let ?pre = "processed s ?ts"
  let ?s1 = "upgraded ?pre s"
  have s1: "db_file (snd (migrate s)) = ?s1" by (rule db_file_migrate)
  have pre1: "processed ?s1 ?ts = ?pre" by (rule processed_again)
  have ref1: "refused ?s1 ?ts = refused s ?ts" by (rule refused_again)
  have same: "db_file (snd (second_run s)) = db_file (snd (migrate s))"
    by (simp add: second_run_def db_file_migrate pre1 upgraded_idem)
  have quiet: "spec_outcome ?s1 u \<noteq> Added" if "u \<in> set ?pre" for u
    using that by (rule no_added_after)
  then have nodone: "Done_line \<notin> set (reported ?s1 ?pre)"
    by (auto dest: done_in_reported)
  have noalter: "Alter_add t c \<notin> set (issued ?s1 ?pre)" for t c
  proof
    assume a: "Alter_add t c \<in> set (issued ?s1 ?pre)"
    then obtain u where "u \<in> set ?pre" "Alter_add t c \<in> set (outcome_calls u (spec_outcome ?s1 u))"
      by (auto simp: issued_def)
    then show False using quiet by (auto dest: alter_in_calls)
  qed
  have out2: "Done_line \<notin> set (stdout (snd (second_run s)))"
    using nodone by (simp add: second_run_def s1 migrate_eq[of ?s1] pre1 split: list.splits)
  have normal: "fst (second_run s) = None \<and>
      (\<forall>t \<in> set ?ts. spec_outcome ?s1 t \<noteq> Added) \<and>
      stdout (snd (second_run s)) =
        Tables_line (map tbl_name s) #
        concat (map (\<lambda>t. outcome_lines t (spec_outcome ?s1 t)) ?ts) @ [Complete_line] \<and>
      (\<forall>t c. Alter_add t c \<notin> set (calls (snd (second_run s))))"
    if "fst (migrate s) = None"
  proof -
    from that have nil: "refused s ?ts = []"
      by (simp add: fst_migrate split: if_splits)
    then have all: "?pre = ?ts"
      using takeWhile_dropWhile_id[of "\<lambda>t. \<not> rejected s t" ?ts]
      by (simp add: processed_def refused_def)
    have quiet_all: "\<forall>t \<in> set ?ts. spec_outcome ?s1 t \<noteq> Added"
      using quiet all by simp
    have noalter_all: "Alter_add t c \<notin> set (issued ?s1 ?ts)" for t c
      using noalter[of t c] all by simp
    have pre_all: "processed ?s1 ?ts = ?ts" using pre1 all by simp
    have ref_all: "refused ?s1 ?ts = []" using ref1 nil by simp
    have "second_run s = migrate ?s1" by (simp add: second_run_def s1)
    then show ?thesis
      using quiet_all noalter_all
      by (simp add: migrate_eq[of ?s1] pre_all ref_all reported_def)
  qed
  show ?thesis
    using same out2 normal by (simp add: s1)
qed

theorem migrate_idempotent_witness:
  "fst (migrate store_a) = None \<and>
   db_file (snd (second_run store_a)) = db_file (snd (migrate store_a)) \<and>
   fst (second_run store_a) = None \<and>
   stdout (snd (second_run store_a)) =
     [Tables_line [''memories'', ''entities'', ''notes''],
      Exists_line ''memories'', Exists_line ''entities'', Absent_line ''edges'',
      Absent_line ''scratchpad'', Absent_line ''entity_relations'', Complete_line]"
proof -
  have h: "fst (migrate store_a) = None"
    by code_simp
  have lines: "Tables_line (map tbl_name store_a) #
      concat (map (\<lambda>t. outcome_lines t (spec_outcome (db_file (snd (migrate store_a))) t))
                tables_needing_project_id) @ [Complete_line] =
     [Tables_line [''memories'', ''entities'', ''notes''],
      Exists_line ''memories'', Exists_line ''entities'', Absent_line ''edges'',
      Absent_line ''scratchpad'', Absent_line ''entity_relations'', Complete_line]"
    by code_simp
  show ?thesis
    using h lines migrate_idempotent[of store_a] by simp
qed

text \<open>
  C4. Take a table that lacks \<open>project_id\<close> before the run and has it in the committed
  store after the run, with rows as long as its column list. Then the run has appended
  exactly the column \<open>project_id TEXT DEFAULT 'global'\<close>, every row of before is there
  with the text \<open>global\<close> appended, and every row reads \<open>global\<close>, not \<open>NULL\<close>, in the
  column \<open>project_id\<close>.
\<close>

theorem added_column_reads_default:
  assumes before: "find_table s t = Some T"
    and lacks: "\<not> has_column T ''project_id''"
    and after: "find_table (db_file (snd (migrate s))) t = Some T'"
    and has: "has_column T' ''project_id''"
    and rows: "\<forall>r \<in> set (tbl_rows T). length r = length (tbl_cols T)"
  shows "tbl_cols T' = tbl_cols T @ [project_id_column] \<and>
         tbl_rows T' = map (\<lambda>r. r @ [Text ''global'']) (tbl_rows T) \<and>
         (\<forall>r' \<in> set (tbl_rows T'). read_column T' r' ''project_id'' = Some (Text ''global''))"
proof -
  have T': "T' = add_column project_id_column T"
    using before lacks after has
    by (auto simp: db_file_migrate find_table_upgraded split: if_splits)
  have dflt: "default_value project_id_column = Text ''global''"
    by (simp add: default_value_def project_id_column_def)
  have name: "col_name project_id_column = ''project_id''"
    by (simp add: project_id_column_def)
  have "read_column T' (r @ [Text ''global'']) ''project_id'' = Some (Text ''global'')"
    if "r \<in> set (tbl_rows T)" for r
    using read_added_column[of r T project_id_column "Text ''global''"] that rows lacks
    by (simp add: T' name)
  then show ?thesis
    by (auto simp: T' add_column_def dflt)
qed

theorem added_column_reads_default_witness:
  "find_table store_a ''memories'' = Some memories_a \<and>
   \<not> has_column memories_a ''project_id'' \<and>
   find_table (db_file (snd (migrate store_a))) ''memories'' =
     Some (add_column project_id_column memories_a) \<and>
   tbl_rows (add_column project_id_column memories_a) =
     [[Integer 1, Text ''first'', Text ''global''], [Integer 2, Null, Text ''global'']] \<and>
   list_all (\<lambda>r. read_column (add_column project_id_column memories_a) r ''project_id'' =
                  Some (Text ''global''))
     (tbl_rows (add_column project_id_column memories_a))"
proof -
  have h1: "find_table store_a ''memories'' = Some memories_a"
    by (simp add: find_table_def store_a_def memories_a_def)
  have h2: "\<not> has_column memories_a ''project_id''"
    by code_simp
  have h3: "find_table (db_file (snd (migrate store_a))) ''memories'' =
            Some (add_column project_id_column memories_a)"
    by code_simp
  have h4: "has_column (add_column project_id_column memories_a) ''project_id''"
    by code_simp
  have h5: "\<forall>r \<in> set (tbl_rows memories_a). length r = length (tbl_cols memories_a)"
    by (simp add: memories_a_def)
  have rows: "map (\<lambda>r. r @ [Text ''global'']) (tbl_rows memories_a) =
     [[Integer 1, Text ''first'', Text ''global''], [Integer 2, Null, Text ''global'']]"
    by (simp add: memories_a_def)
  show ?thesis
    using h1 h2 h3 rows added_column_reads_default[OF h1 h2 h3 h4 h5]
    by (simp add: list_all_iff)
qed

text \<open>
  C7, as the code has it. Both scripts call \<open>conn.close()\<close> as their last statement on the
  store and have no \<open>try\<close>, \<open>finally\<close> or \<open>with\<close>: the connection is closed exactly when
  the run ends normally, and \<open>close\<close> is then the last call. When the run ends with a store
  error, no \<open>close\<close> has been called and the connection is still open.
\<close>

theorem close_only_on_normal_end:
  "conn_open (snd (migrate s)) = (fst (migrate s) \<noteq> None) \<and>
   (Close \<in> set (calls (snd (migrate s)))) = (fst (migrate s) = None) \<and>
   (fst (migrate s) = None \<longrightarrow> last (calls (snd (migrate s))) = Close) \<and>
   conn_open (snd (check_schema fails vs s)) = (fst (check_schema fails vs s) \<noteq> None) \<and>
   (Close \<in> set (calls (snd (check_schema fails vs s)))) =
     (fst (check_schema fails vs s) = None) \<and>
   (fst (check_schema fails vs s) = None \<longrightarrow>
      last (calls (snd (check_schema fails vs s))) = Close)"
proof -
  have "Close \<notin> set (issued s us)" for us
    by (auto simp: issued_def close_not_in_calls)
  then have m: "conn_open (snd (migrate s)) = (fst (migrate s) \<noteq> None) \<and>
   (Close \<in> set (calls (snd (migrate s)))) = (fst (migrate s) = None) \<and>
   (fst (migrate s) = None \<longrightarrow> last (calls (snd (migrate s))) = Close)"
    by (simp add: migrate_eq split: list.splits)
  have c: "conn_open (snd (check_schema fails vs s)) = (fst (check_schema fails vs s) \<noteq> None) \<and>
   (Close \<in> set (calls (snd (check_schema fails vs s)))) =
     (fst (check_schema fails vs s) = None) \<and>
   (fst (check_schema fails vs s) = None \<longrightarrow>
      last (calls (snd (check_schema fails vs s))) = Close)"
  proof (cases rule: check_schema_cases[of fails vs s])
    case (listing_failed e w ns)
    then show ?thesis by auto
  next
    case (count_failed e w)
    then show ?thesis by auto
  next
    case (counted n w)
    then show ?thesis by auto
  qed
  from m c show ?thesis by simp
qed

theorem close_only_on_normal_end_witness:
  "fst (migrate store_a) = None \<and> \<not> conn_open (snd (migrate store_a)) \<and>
   last (calls (snd (migrate store_a))) = Close \<and>
   fst (check_schema accepts_all [] store_a) = None \<and>
   \<not> conn_open (snd (check_schema accepts_all [] store_a)) \<and>
   last (calls (snd (check_schema accepts_all [] store_a))) = Close"
proof -
  have "fst (migrate store_a) = None" "fst (check_schema accepts_all [] store_a) = None"
    by code_simp+
  then show ?thesis
    using close_only_on_normal_end[of store_a accepts_all "[]"] by simp
qed

text \<open>
  C7 as stated fails on both scripts. The migration of \<open>store_r\<close> ends with the refused
  addition; the listing of \<open>store_e\<close>, which has no table \<open>memories\<close>, ends with the
  failed count, and the listing of \<open>store_n\<close> with the refused \<open>PRAGMA\<close> for the name
  with a space. In the three runs the connection is open at the end and \<open>close\<close> was not
  called.
\<close>

theorem release_on_error_counterexample:
  "fst (migrate store_r) = Some SchemaChangeRejected \<and>
   conn_open (snd (migrate store_r)) \<and>
   Close \<notin> set (calls (snd (migrate store_r))) \<and>
   fst (check_schema accepts_all [] store_e) = Some NotFoundError \<and>
   conn_open (snd (check_schema accepts_all [] store_e)) \<and>
   Close \<notin> set (calls (snd (check_schema accepts_all [] store_e))) \<and>
   fst (check_schema refuses_spaces [] store_n) = Some SyntaxError \<and>
   conn_open (snd (check_schema refuses_spaces [] store_n)) \<and>
   Close \<notin> set (calls (snd (check_schema refuses_spaces [] store_n)))"
  by code_simp



text \<open>
  C10. Two runs on stores with the same schema state (the same tables in the same order,
  with the same columns and the same acceptance of additions), whatever their rows, end
  the same way, print the same lines, make the same calls and leave stores with the same
  schema state.
\<close>

theorem migrate_deterministic:
  assumes "schema_of s1 = schema_of s2"
  shows "fst (migrate s1) = fst (migrate s2) \<and>
         stdout (snd (migrate s1)) = stdout (snd (migrate s2)) \<and>
         calls (snd (migrate s1)) = calls (snd (migrate s2)) \<and>
         conn_open (snd (migrate s1)) = conn_open (snd (migrate s2)) \<and>
         schema_of (db_file (snd (migrate s1))) = schema_of (db_file (snd (migrate s2)))"
proof -
  let ?ts = "tables_needing_project_id"
  have out: "spec_outcome s1 = spec_outcome s2"
    using spec_outcome_schema[OF assms] by (rule ext)
  have rej: "rejected s1 = rejected s2"
    using rejected_schema[OF assms] by (rule ext)
  have names: "map tbl_name s1 = map tbl_name s2"
    by (simp add: names_schema assms)
  have pre: "processed s1 ?ts = processed s2 ?ts" and ref: "refused s1 ?ts = refused s2 ?ts"
    by (simp_all add: processed_def refused_def rej)
  have rep: "reported s1 us = reported s2 us" and iss: "issued s1 us = issued s2 us" for us
    by (simp_all add: reported_def issued_def out)
  have sch: "schema_of (upgraded us s1) = schema_of (upgraded us s2)" for us
    using assms by (rule schema_upgraded)
  show ?thesis
    by (simp add: migrate_eq[of s1] migrate_eq[of s2] pre ref rep iss sch names
        split: list.splits)
qed

theorem migrate_deterministic_witness:
  "schema_of store_a = schema_of store_b \<and>
   map tbl_rows store_a \<noteq> map tbl_rows store_b \<and>
   stdout (snd (migrate store_a)) = stdout (snd (migrate store_b)) \<and>
   schema_of (db_file (snd (migrate store_a))) = schema_of (db_file (snd (migrate store_b)))"
proof -
  have h: "schema_of store_a = schema_of store_b"
    by (simp add: schema_of_def store_a_def store_b_def)
  have d: "map tbl_rows store_a \<noteq> map tbl_rows store_b"
    by (simp add: store_a_def store_b_def memories_a_def)
  show ?thesis
    using h d migrate_deterministic[OF h] by simp
qed

end
